theory Spec2Isabelle
  imports Complex_Main "HOL-Library.Char_ord" "HOL-Library.List_Lexorder"
begin

section \<open>The driver of naoqi\_driver.cpp: data model\<close>

text \<open>
  The class \<open>Driver\<close> of \<^verbatim>\<open>src/naoqi_driver.cpp\<close> is embedded as a record of its
  members and each member function as a function from the state (and the values the
  function reads from outside: the clock, the try-lock, the file system) to the result
  and the new state. Member names lose their trailing underscore, which is not allowed
  in a name here: \<open>conv_queue_\<close> is \<open>conv_queue\<close>, \<open>log_enabled_\<close> is \<open>log_enabled\<close>.

  \<open>rclcpp::Time\<close> is a count of nanoseconds, here an \<open>int\<close>. The \<open>float\<close> values of
  the source (frequencies in Hz, buffer durations in seconds) are rationals: the finite
  values of a float, with one zero.
\<close>

type_synonym time = int
type_synonym float = rat

datatype MessageAction = PUBLISH | RECORD | LOG

text \<open>
  Modelled from the spec: the converter concept (\<open>converter::Converter\<close>) is declared in a
  header that is not among the sources. The spec gives a task a unique name and a
  frequency in Hz, zero for a one-shot task; the driver reads both through \<open>name()\<close> and
  \<open>frequency()\<close>.
\<close>

record Converter =
  conv_name :: string
  conv_frequency :: float

text \<open>
  Modelled from the spec: the object behind the publisher concept
  (\<open>publisher::Publisher\<close>), an emit sink with a topic and a liveness predicate.
  \<open>pub_isSubscribed\<close> is what \<open>isSubscribed()\<close> returns, \<open>pub_isInitialized\<close> is set by
  \<open>reset(node)\<close>.
\<close>

record Publisher =
  pub_topic :: string
  pub_isSubscribed :: bool
  pub_isInitialized :: bool

text \<open>
  Modelled from the spec: the object behind the recorder concept
  (\<open>recorder::Recorder\<close>), a persist sink.
  \<open>rec_isSubscribed\<close> is set by \<open>subscribe(b)\<close> and read by \<open>isSubscribed()\<close>,
  \<open>rec_buffer_duration\<close> is set by \<open>setBufferDuration(d)\<close>, \<open>rec_frequency\<close> and
  \<open>rec_isInitialized\<close> by \<open>reset(recorder, frequency)\<close>.
\<close>

record Recorder =
  rec_isSubscribed :: bool
  rec_isInitialized :: bool
  rec_frequency :: float
  rec_buffer_duration :: float

text \<open>
  Modelled from the spec: the event concept (\<open>event::Event\<close>), an asynchronous event
  source with its three flags, its background processing and its buffer horizon.
\<close>

record Event =
  ev_isPublishing :: bool
  ev_isRecording :: bool
  ev_isDumping :: bool
  ev_isStarted :: bool
  ev_hasRecorder :: bool
  ev_buffer_duration :: float

text \<open>
  Modelled from the spec: \<open>ScheduledConverter\<close> is declared in the class header, which is
  not among the sources. It pairs a fire time with the index of a converter; the
  priority queue is a min-heap by fire time. The queue is a list; its top is the first
  entry, in list order, among those of least fire time.
\<close>

record ScheduledConverter =
  schedule :: time
  conv_index :: nat

fun top_from :: "ScheduledConverter \<Rightarrow> ScheduledConverter list \<Rightarrow> ScheduledConverter" where
  "top_from b [] = b"
| "top_from b (a # q) = top_from (if schedule a < schedule b then a else b) q"

definition push :: "ScheduledConverter \<Rightarrow> ScheduledConverter list \<Rightarrow> ScheduledConverter list" where
  "push x q = q @ [x]"

definition pop :: "ScheduledConverter list \<Rightarrow> ScheduledConverter list" where
  "pop q = (case q of [] \<Rightarrow> [] | x # xs \<Rightarrow> remove1 (top_from x xs) q)"

text \<open>
  Modelled from the spec: the global recorder (\<open>recorder::GlobalRecorder\<close>) is the
  persist transport, \<open>open(prefix) -> id\<close>, \<open>append(message, timestamp)\<close> and
  \<open>close() -> id\<close>. A container is its tag and the list of what was appended to it,
  here the name of the sink that flushed its buffer and the snapshot time. The identity
  of a container is its tag. \<open>startRecord\<close> opens a new container, \<open>stopRecord\<close> finalizes
  the open one and returns its identity (the empty string when none is open).
\<close>

type_synonym container = "string \<times> (string \<times> time) list"

record GlobalRecorder =
  gr_open :: "container option"
  gr_closed :: "container list"

definition startRecord :: "string \<Rightarrow> GlobalRecorder \<Rightarrow> GlobalRecorder" where
  "startRecord prefix g = g\<lparr>gr_open := Some (prefix, [])\<rparr>"

definition stopRecord :: "GlobalRecorder \<Rightarrow> string \<times> GlobalRecorder" where
  "stopRecord g =
     (case gr_open g of
        None \<Rightarrow> ([], g)
      | Some c \<Rightarrow> (fst c, g\<lparr>gr_open := None, gr_closed := gr_closed g @ [c]\<rparr>))"

definition append_dump :: "string \<Rightarrow> time \<Rightarrow> GlobalRecorder \<Rightarrow> GlobalRecorder" where
  "append_dump name t g =
     (case gr_open g of
        None \<Rightarrow> g
      | Some c \<Rightarrow> g\<lparr>gr_open := Some (fst c, snd c @ [(name, t)])\<rparr>)"

subsection \<open>The period of a converter\<close>

text \<open>
  The duration of line 299, \<open>rclcpp::Duration(0, (1.0f / conv.frequency())*1e9)\<close>.
  \<open>frequency()\<close> is a float, as the \<open>float frequency\<close> parameters that receive it, so
  the quotient is a float division: the exact quotient rounded to the nearest float, 24
  bits of significand, ties to even (the exponent range of a float is not modelled). The
  product with \<open>1e9\<close> is a double product and it is exact: a significand of 24 bits
  times \<open>1953125 * 2^9\<close> fits the 53 bits of a double. The second argument of the
  constructor is a \<open>uint32_t\<close> count of nanoseconds, and the conversion from double
  truncates. Out of the range of \<open>uint32_t\<close> the conversion is undefined in C++; it is
  here what the usual hardware conversion gives, the low 32 bits.
\<close>

fun bits :: "nat \<Rightarrow> nat" where
  "bits n = (if n = 0 then 0 else Suc (bits (n div 2)))"

declare bits.simps [simp del]

definition pow2 :: "int \<Rightarrow> rat" where
  "pow2 k = (if 0 \<le> k then 2 ^ nat k else 1 / 2 ^ nat (- k))"

text \<open>The exponent \<open>e\<close> of a positive \<open>x\<close>: \<open>2^e \<le> x < 2^(e+1)\<close>.\<close>

definition float_exponent :: "rat \<Rightarrow> int" where
  "float_exponent x =
     (if 1 \<le> x then int (bits (nat \<lfloor>x\<rfloor>)) - 1 else - int (bits (nat (\<lceil>1 / x\<rceil> - 1))))"

definition round_half_even :: "rat \<Rightarrow> int" where
  "round_half_even q =
     (let n = \<lfloor>q\<rfloor>; d = q - of_int n
      in if d < 1 / 2 then n else if 1 / 2 < d then n + 1 else if even n then n else n + 1)"

definition float32 :: "rat \<Rightarrow> rat" where
  "float32 x =
     (if x = 0 then 0
      else let a = \<bar>x\<bar>; u = pow2 (float_exponent a - 23)
           in sgn x * of_int (round_half_even (a / u)) * u)"

definition uint32_of :: "rat \<Rightarrow> int" where
  "uint32_of x = (if 0 \<le> x then \<lfloor>x\<rfloor> else - \<lfloor>- x\<rfloor>) mod 2 ^ 32"

definition period_ns :: "float \<Rightarrow> time" where
  "period_ns f = uint32_of (float32 (1 / f) * 1000000000)"

subsection \<open>std::map\<close>

text \<open>
  A \<open>std::map<std::string, V>\<close> is an association list in the order of its keys, the
  order in which the source iterates over it. \<open>find\<close> is \<open>map_of\<close>; \<open>insert\<close> leaves
  the map as it is when the key is present.
\<close>

fun insert_sorted :: "string \<Rightarrow> 'v \<Rightarrow> (string \<times> 'v) list \<Rightarrow> (string \<times> 'v) list" where
  "insert_sorted k v [] = [(k, v)]"
| "insert_sorted k v (kv # m) =
     (if k < fst kv then (k, v) # kv # m else kv # insert_sorted k v m)"

definition map_insert :: "string \<Rightarrow> 'v \<Rightarrow> (string \<times> 'v) list \<Rightarrow> (string \<times> 'v) list" where
  "map_insert k v m = (case map_of m k of Some _ \<Rightarrow> m | None \<Rightarrow> insert_sorted k v m)"

subsection \<open>The state of the driver\<close>

text \<open>
  Modelled from the spec: a publisher, a recorder or an event is one object shared by
  the registry that holds it, the converter registered with it and whoever created it
  (\<open>publisher::Publisher\<close>, \<open>recorder::Recorder\<close> and \<open>event::Event\<close> are handles that are
  copied, the object is not). The spec models it as a single entity referenced by a
  stable handle. So \<open>pub_map\<close>, \<open>rec_map\<close> and \<open>event_map\<close> hold handles into
  \<open>pub_heap\<close>, \<open>rec_heap\<close> and \<open>event_heap\<close>, and a setter called through one handle is
  seen through every other. \<open>pub_next\<close>, \<open>rec_next\<close> and \<open>event_next\<close> are the next free
  handles.

  The record has the members of \<open>Driver\<close> that the functions below read or write.
  \<open>subscribers\<close> keeps the names of the registered subscribers.
\<close>

record Driver =
  publish_enabled :: bool
  record_enabled :: bool
  log_enabled :: bool
  keep_looping :: bool
  recorder :: GlobalRecorder
  buffer_duration :: float
  converters :: "Converter list"
  conv_queue :: "ScheduledConverter list"
  pub_map :: "(string \<times> nat) list"
  pub_heap :: "nat \<Rightarrow> Publisher"
  pub_next :: nat
  rec_map :: "(string \<times> nat) list"
  rec_heap :: "nat \<Rightarrow> Recorder"
  rec_next :: nat
  event_map :: "(string \<times> nat) list"
  event_heap :: "nat \<Rightarrow> Event"
  event_next :: nat
  subscribers :: "string list"

text \<open>What the source cannot do without failing: an exception or undefined behaviour.\<close>

datatype fault =
  OutOfRange nat
| WriteDumpFailed string

text \<open>
  The constructor \<open>Driver::Driver()\<close>. The default buffer duration,
  \<open>helpers::recorder::bufferDefaultDuration\<close>, is a constant of a header that is not among
  the sources and is a parameter here.
\<close>

definition Driver_init :: "float \<Rightarrow> Driver" where
  "Driver_init bufferDefaultDuration =
     \<lparr>publish_enabled = False, record_enabled = False, log_enabled = False,
      keep_looping = True,
      recorder = \<lparr>gr_open = None, gr_closed = []\<rparr>,
      buffer_duration = bufferDefaultDuration,
      converters = [], conv_queue = [],
      pub_map = [],
      pub_heap = (\<lambda>h. \<lparr>pub_topic = [], pub_isSubscribed = False, pub_isInitialized = False\<rparr>),
      pub_next = 0,
      rec_map = [],
      rec_heap = (\<lambda>h. \<lparr>rec_isSubscribed = False, rec_isInitialized = False, rec_frequency = 0,
                        rec_buffer_duration = 0\<rparr>),
      rec_next = 0,
      event_map = [],
      event_heap = (\<lambda>h. \<lparr>ev_isPublishing = False, ev_isRecording = False, ev_isDumping = False,
                          ev_isStarted = False, ev_hasRecorder = False, ev_buffer_duration = 0\<rparr>),
      event_next = 0, subscribers = []\<rparr>"

text \<open>
  \<open>boost::make_shared\<close> of a publisher or of a recorder: a new object, with its handle.
\<close>

definition make_publisher :: "Publisher \<Rightarrow> Driver \<Rightarrow> nat \<times> Driver" where
  "make_publisher p s =
     (pub_next s, s\<lparr>pub_heap := (pub_heap s)(pub_next s := p), pub_next := Suc (pub_next s)\<rparr>)"

definition make_recorder :: "Recorder \<Rightarrow> Driver \<Rightarrow> nat \<times> Driver" where
  "make_recorder r s =
     (rec_next s, s\<lparr>rec_heap := (rec_heap s)(rec_next s := r), rec_next := Suc (rec_next s)\<rparr>)"

text \<open>A loop over \<open>event_map\<close> that calls one setter on every event.\<close>

definition for_each_event :: "(Event \<Rightarrow> Event) \<Rightarrow> Driver \<Rightarrow> Driver" where
  "for_each_event f s =
     s\<lparr>event_heap := fold (\<lambda>kh hp. hp(snd kh := f (hp (snd kh)))) (event_map s) (event_heap s)\<rparr>"

text \<open>A loop over \<open>rec_map\<close> that calls one setter on every recorder.\<close>

definition for_each_recorder :: "(Recorder \<Rightarrow> Recorder) \<Rightarrow> Driver \<Rightarrow> Driver" where
  "for_each_recorder f s =
     s\<lparr>rec_heap := fold (\<lambda>kh hp. hp(snd kh := f (hp (snd kh)))) (rec_map s) (rec_heap s)\<rparr>"

section \<open>The scheduler tick\<close>

text \<open>
  What a tick reads from outside: the clock and whether the try-lock on \<open>mutex_record_\<close>
  succeeds.
\<close>

record tick_env =
  te_now :: time
  te_lock_record :: bool

text \<open>
  What a tick did: the converter it took from the top of the queue, the fire time of
  that entry, the actions it selected and how long it slept. \<open>callAll\<close> is called when
  there is at least one action and is not called when there is none.
\<close>

record tick =
  t_index :: nat
  t_schedule :: time
  t_actions :: "MessageAction list"
  t_sleep :: time

definition publish_action :: "Driver \<Rightarrow> Converter \<Rightarrow> MessageAction list" where
  "publish_action s conv =
     (let pub_it = map_of (pub_map s) (conv_name conv)
      in if publish_enabled s \<and> pub_it \<noteq> None \<and> pub_isSubscribed (pub_heap s (the pub_it))
         then [PUBLISH] else [])"

definition record_action :: "tick_env \<Rightarrow> Driver \<Rightarrow> Converter \<Rightarrow> MessageAction list" where
  "record_action env s conv =
     (let rec_it = map_of (rec_map s) (conv_name conv)
      in if te_lock_record env \<and> record_enabled s \<and> rec_it \<noteq> None \<and>
            rec_isSubscribed (rec_heap s (the rec_it))
         then [RECORD] else [])"

definition log_action :: "Driver \<Rightarrow> Converter \<Rightarrow> MessageAction list" where
  "log_action s conv =
     (let rec_it = map_of (rec_map s) (conv_name conv)
      in if log_enabled s \<and> rec_it \<noteq> None \<and> conv_frequency conv \<noteq> 0 then [LOG] else [])"

text \<open>
  \<open>rosIteration\<close>. \<open>converters_[conv_index]\<close> is not checked by the source; out of range
  it is the fault \<open>OutOfRange\<close>. The result is \<open>None\<close> when the queue is empty and the
  tick only sleeps.
\<close>

definition rosIteration :: "tick_env \<Rightarrow> Driver \<Rightarrow> fault + (tick option \<times> Driver)" where
  "rosIteration env s =
     (case conv_queue s of
        [] \<Rightarrow> Inr (None, s)
      | x # xs \<Rightarrow>
          let i = conv_index (top_from x xs) in
          if length (converters s) \<le> i then Inl (OutOfRange i)
          else
            let conv = converters s ! i;
                sched = schedule (top_from x xs);
                actions = publish_action s conv @ record_action env s conv @ log_action s conv;
                d = sched - te_now env;
                q = pop (conv_queue s);
                q' = (if conv_frequency conv \<noteq> 0
                      then push \<lparr>schedule = sched + period_ns (conv_frequency conv),
                                 conv_index = i\<rparr> q
                      else q)
            in Inr (Some \<lparr>t_index = i, t_schedule = sched, t_actions = actions,
                          t_sleep = (if 0 < d then d else 0)\<rparr>,
                    s\<lparr>conv_queue := q'\<rparr>))"

section \<open>Registration\<close>

definition registerConverter :: "time \<Rightarrow> Converter \<Rightarrow> Driver \<Rightarrow> Driver" where
  "registerConverter now conv s =
     s\<lparr>converters := converters s @ [conv],
       conv_queue := push \<lparr>schedule = now, conv_index = length (converters s)\<rparr> (conv_queue s)\<rparr>"

text \<open>
  \<open>registerPublisher(conv_name, pub)\<close> and \<open>registerRecorder(conv_name, rec, frequency)\<close>.
  \<open>pub\<close> and \<open>rec\<close> are handles: the \<open>reset\<close> changes the object they refer to, whether or
  not the \<open>insert\<close> that follows adds an entry.
\<close>

definition registerPublisher :: "string \<Rightarrow> nat \<Rightarrow> Driver \<Rightarrow> Driver" where
  "registerPublisher name pub s =
     (let s1 = (if publish_enabled s
                then s\<lparr>pub_heap := (pub_heap s)(pub := (pub_heap s pub)\<lparr>pub_isInitialized := True\<rparr>)\<rparr>
                else s)
      in s1\<lparr>pub_map := map_insert name pub (pub_map s1)\<rparr>)"

definition registerRecorder :: "string \<Rightarrow> nat \<Rightarrow> float \<Rightarrow> Driver \<Rightarrow> Driver" where
  "registerRecorder name rec frequency s =
     (let s1 = s\<lparr>rec_heap := (rec_heap s)
                   (rec := (rec_heap s rec)\<lparr>rec_frequency := frequency, rec_isInitialized := True\<rparr>)\<rparr>
      in s1\<lparr>rec_map := map_insert name rec (rec_map s1)\<rparr>)"

definition insertEventConverter :: "string \<Rightarrow> Event \<Rightarrow> Driver \<Rightarrow> Driver" where
  "insertEventConverter key ev s =
     s\<lparr>event_heap := (event_heap s)(event_next s := ev\<lparr>ev_hasRecorder := True\<rparr>),
       event_next := Suc (event_next s),
       event_map := map_insert key (event_next s) (event_map s)\<rparr>"

text \<open>The overload \<open>registerConverter(conv, pub, rec)\<close>.\<close>

definition registerConverter3 :: "time \<Rightarrow> Converter \<Rightarrow> nat \<Rightarrow> nat \<Rightarrow> Driver \<Rightarrow> Driver" where
  "registerConverter3 now conv pub rec s =
     registerRecorder (conv_name conv) rec (conv_frequency conv)
       (registerPublisher (conv_name conv) pub (registerConverter now conv s))"

text \<open>
  Modelled from the spec: the template \<open>_registerMemoryConverter\<close> is declared in the
  class header, which is not among the sources. The spec registers one ad-hoc
  single-value task from a name, a frequency and a kind; as \<open>addMemoryConverters\<close> does
  in the source, it makes a publisher, a recorder and a converter named by the key and
  registers the three.
\<close>

definition registerMemoryConverter_tmpl :: "time \<Rightarrow> string \<Rightarrow> float \<Rightarrow> Driver \<Rightarrow> Driver" where
  "registerMemoryConverter_tmpl now key frequency s =
     (let p = make_publisher
                \<lparr>pub_topic = key, pub_isSubscribed = False, pub_isInitialized = False\<rparr> s;
          r = make_recorder
                \<lparr>rec_isSubscribed = False, rec_isInitialized = False, rec_frequency = 0,
                 rec_buffer_duration = 0\<rparr> (snd p)
      in registerConverter3 now \<lparr>conv_name = key, conv_frequency = frequency\<rparr>
           (fst p) (fst r) (snd r))"

text \<open>
  \<open>registerMemoryConverter\<close>. The data types are the numbers of the source's \<open>switch\<close>:
  0 None, 1 Float, 2 Int, 3 String, 4 Bool. \<open>getData\<close> is the read of the key in the
  robot's memory and \<open>getDataType\<close> the inference of the type of the value read; either
  is \<open>None\<close> when the call throws.
\<close>

definition registerMemoryConverter ::
  "(string \<Rightarrow> 'v option) \<Rightarrow> ('v \<Rightarrow> nat option) \<Rightarrow> time \<Rightarrow> string \<Rightarrow> float \<Rightarrow> nat \<Rightarrow> Driver
     \<Rightarrow> bool \<times> Driver" where
  "registerMemoryConverter getData getDataType now key frequency type s =
     (case getData key of
        None \<Rightarrow> (False, s)
      | Some v \<Rightarrow>
          (case (if type = 0 then getDataType v else Some type) of
             None \<Rightarrow> (False, s)
           | Some data_type \<Rightarrow>
               if data_type = 0 then (False, s)
               else if data_type \<le> 4 then (True, registerMemoryConverter_tmpl now key frequency s)
               else (False, s)))"

section \<open>Publishing, recording, buffering and dump\<close>

definition startPublishing :: "Driver \<Rightarrow> Driver" where
  "startPublishing s = for_each_event (\<lambda>e. e\<lparr>ev_isPublishing := True\<rparr>) (s\<lparr>publish_enabled := True\<rparr>)"

definition stopPublishing :: "Driver \<Rightarrow> Driver" where
  "stopPublishing s = for_each_event (\<lambda>e. e\<lparr>ev_isPublishing := False\<rparr>) (s\<lparr>publish_enabled := False\<rparr>)"

text \<open>
  The loop of \<open>stopRecording\<close> over the converters:
  \<open>it = rec_map_.find(conv.name()); if (it != rec_map_.end()) it->second.subscribe(false)\<close>.
\<close>

definition unsubscribe_converter :: "(string \<times> nat) list \<Rightarrow> Converter \<Rightarrow> (nat \<Rightarrow> Recorder) \<Rightarrow> (nat \<Rightarrow> Recorder)" where
  "unsubscribe_converter m conv hp =
     (case map_of m (conv_name conv) of
        None \<Rightarrow> hp
      | Some h \<Rightarrow> hp(h := (hp h)\<lparr>rec_isSubscribed := False\<rparr>))"

definition stopRecording :: "Driver \<Rightarrow> string \<times> Driver" where
  "stopRecording s =
     (let s1 = s\<lparr>record_enabled := False\<rparr>;
          s2 = s1\<lparr>rec_heap := fold (unsubscribe_converter (rec_map s1)) (converters s1) (rec_heap s1)\<rparr>;
          s3 = for_each_event (\<lambda>e. e\<lparr>ev_isRecording := False\<rparr>) s2;
          r = stopRecord (recorder s3)
      in (fst r, s3\<lparr>recorder := snd r\<rparr>))"

definition startLogging :: "Driver \<Rightarrow> Driver" where
  "startLogging s = s\<lparr>log_enabled := True\<rparr>"

definition stopLogging :: "Driver \<Rightarrow> Driver" where
  "stopLogging s = s\<lparr>log_enabled := False\<rparr>"

definition setBufferDuration :: "float \<Rightarrow> Driver \<Rightarrow> Driver" where
  "setBufferDuration duration s =
     (let s1 = for_each_recorder (\<lambda>r. r\<lparr>rec_buffer_duration := duration\<rparr>) s;
          s2 = for_each_event (\<lambda>e. e\<lparr>ev_buffer_duration := duration\<rparr>) s1
      in s2\<lparr>buffer_duration := duration\<rparr>)"

definition getBufferDuration :: "Driver \<Rightarrow> float \<times> Driver" where
  "getBufferDuration s = (buffer_duration s, s)"

text \<open>
  What a dump reads from outside: the size of the files of the current folder and the
  ceiling \<open>helpers::filesystem::folderMaximumSize\<close>, the clock, and which sinks'
  \<open>writeDump\<close> throws (by the name of the sink).
\<close>

record dump_env =
  de_files_size :: int
  de_folderMaximumSize :: int
  de_now :: time
  de_raises :: "string \<Rightarrow> bool"

definition err_log_not_enabled :: string where
  "err_log_not_enabled = ''Log is not enabled, please enable logging before calling minidump''"

definition err_no_space :: string where
  "err_no_space =
     ''No more space on robot. You need to upload the presents bags and remove them to make new ones.''"

definition err_no_topic :: string where
  "err_no_topic =
     ''Could not find any topic in converters. To get the list of all available converter's name, please run: $ qicli call ROS-Driver.getAvailableConverters''"

text \<open>
  The loop \<open>for (it = m.begin(); it != m.end(); it++) it->second.writeDump(time)\<close>
  over one of the maps. A \<open>writeDump\<close> that throws ends the loop: the result is the
  fault, if any, and the global recorder as the loop left it.
\<close>

fun writeDump_all ::
  "(string \<Rightarrow> bool) \<Rightarrow> time \<Rightarrow> (string \<times> 'v) list \<Rightarrow> GlobalRecorder \<Rightarrow> fault option \<times> GlobalRecorder" where
  "writeDump_all raises t [] g = (None, g)"
| "writeDump_all raises t (kv # m) g =
     (if raises (fst kv) then (Some (WriteDumpFailed (fst kv)), g)
      else writeDump_all raises t m (append_dump (fst kv) t g))"

text \<open>
  \<open>minidump\<close>. The result is the string the source returns, or the fault that leaves
  the function when a \<open>writeDump\<close> throws; the state is the state the function leaves
  behind in either case.
\<close>

definition minidump :: "dump_env \<Rightarrow> string \<Rightarrow> Driver \<Rightarrow> (fault + string) \<times> Driver" where
  "minidump env prefix s =
     (if \<not> log_enabled s then (Inr err_log_not_enabled, s)
      else if de_folderMaximumSize env < de_files_size env then (Inr err_no_space, s)
      else
        let s1 = (if record_enabled s then snd (stopRecording s) else s);
            s2 = for_each_event (\<lambda>e. e\<lparr>ev_isDumping := True\<rparr>) (s1\<lparr>log_enabled := False\<rparr>);
            t = de_now env;
            g1 = startRecord prefix (recorder s2);
            r1 = writeDump_all (de_raises env) t (event_map s2) g1
        in case fst r1 of
             Some f \<Rightarrow> (Inl f, s2\<lparr>recorder := snd r1\<rparr>)
           | None \<Rightarrow>
               (let r2 = writeDump_all (de_raises env) t (rec_map s2) (snd r1)
                in (case fst r2 of
                      Some f \<Rightarrow> (Inl f, s2\<lparr>recorder := snd r2\<rparr>)
                    | None \<Rightarrow>
                        (let s3 = for_each_event (\<lambda>e. e\<lparr>ev_isDumping := False\<rparr>)
                                    (s2\<lparr>recorder := snd r2, log_enabled := True\<rparr>);
                             r = stopRecord (recorder s3)
                         in (Inr (fst r), s3\<lparr>recorder := snd r\<rparr>)))))"

text \<open>
  The loop of \<open>minidumpConverters\<close> over the selected names, with its flag
  \<open>is_started\<close>: a name is looked up in \<open>rec_map_\<close> first and in \<open>event_map_\<close>
  otherwise; the first name found opens the container.
\<close>

definition dump_sink ::
  "(string \<Rightarrow> bool) \<Rightarrow> time \<Rightarrow> string \<Rightarrow> string \<Rightarrow> bool \<Rightarrow> GlobalRecorder \<Rightarrow>
     fault option \<times> bool \<times> GlobalRecorder" where
  "dump_sink raises t prefix name is_started g =
     (let g1 = (if \<not> is_started then startRecord prefix g else g)
      in if raises name then (Some (WriteDumpFailed name), True, g1)
         else (None, True, append_dump name t g1))"

fun dump_names ::
  "(string \<Rightarrow> bool) \<Rightarrow> time \<Rightarrow> string \<Rightarrow> (string \<times> nat) list \<Rightarrow> (string \<times> nat) list \<Rightarrow>
     string list \<Rightarrow> bool \<Rightarrow> GlobalRecorder \<Rightarrow> fault option \<times> bool \<times> GlobalRecorder" where
  "dump_names raises t prefix rm em [] is_started g = (None, is_started, g)"
| "dump_names raises t prefix rm em (name # names) is_started g =
     (let r = (case map_of rm name of
                 Some rec \<Rightarrow> dump_sink raises t prefix name is_started g
               | None \<Rightarrow>
                   (case map_of em name of
                      Some h \<Rightarrow> dump_sink raises t prefix name is_started g
                    | None \<Rightarrow> (None, is_started, g)))
      in if fst r \<noteq> None then r
         else dump_names raises t prefix rm em names (fst (snd r)) (snd (snd r)))"

definition minidumpConverters ::
  "dump_env \<Rightarrow> string \<Rightarrow> string list \<Rightarrow> Driver \<Rightarrow> (fault + string) \<times> Driver" where
  "minidumpConverters env prefix names s =
     (if \<not> log_enabled s then (Inr err_log_not_enabled, s)
      else if de_folderMaximumSize env < de_files_size env then (Inr err_no_space, s)
      else
        let s1 = (if record_enabled s then snd (stopRecording s) else s);
            s2 = for_each_event (\<lambda>e. e\<lparr>ev_isDumping := True\<rparr>) (s1\<lparr>log_enabled := False\<rparr>);
            t = de_now env;
            r = dump_names (de_raises env) t prefix (rec_map s2) (event_map s2) names False
                  (recorder s2)
        in case fst r of
             Some f \<Rightarrow> (Inl f, s2\<lparr>recorder := snd (snd r)\<rparr>)
           | None \<Rightarrow>
               (let s3 = for_each_event (\<lambda>e. e\<lparr>ev_isDumping := False\<rparr>)
                           (s2\<lparr>recorder := snd (snd r), log_enabled := True\<rparr>)
                in if fst (snd r) then
                     (let c = stopRecord (recorder s3) in (Inr (fst c), s3\<lparr>recorder := snd c\<rparr>))
                   else (Inr err_no_topic, s3)))"

section \<open>Notions used to state the properties of a dump\<close>

text \<open>
  The state in which a dump that passed its two checks starts: a running recording is
  stopped first.
\<close>

definition pre_dump :: "Driver \<Rightarrow> Driver" where
  "pre_dump s = (if record_enabled s then snd (stopRecording s) else s)"

text \<open>
  The selected names that are a key of the recorder map or of the event map, in the
  order of the selection.
\<close>

definition matched :: "(string \<times> nat) list \<Rightarrow> (string \<times> nat) list \<Rightarrow> string list \<Rightarrow> string list" where
  "matched rm em names = filter (\<lambda>n. n \<in> set (map fst rm) \<or> n \<in> set (map fst em)) names"

text \<open>
  Buffering is restored in \<open>s'\<close>, the state a dump of \<open>s\<close> leaves: \<open>log_enabled_\<close> is true
  and \<open>is_dumping\<close> is false on every event of the event map, which is the one of \<open>s\<close>.
\<close>

definition buffering_restored :: "Driver \<Rightarrow> Driver \<Rightarrow> bool" where
  "buffering_restored s s' \<longleftrightarrow>
     log_enabled s' \<and> event_map s' = event_map s \<and>
     list_all (\<lambda>kh. \<not> ev_isDumping (event_heap s' (snd kh))) (event_map s')"

section \<open>Stopping the driver\<close>

definition stop :: "Driver \<Rightarrow> Driver" where
  "stop s =
     (let s1 = s\<lparr>keep_looping := False\<rparr>;
          s2 = for_each_event (\<lambda>e. e\<lparr>ev_isStarted := False\<rparr>) s1
      in s2\<lparr>converters := [], subscribers := [], event_map := []\<rparr>)"

section \<open>Sequences of calls\<close>

text \<open>
  The calls that change the converter registry and the queue, in any order, from a given
  state: \<open>registerConverter\<close>, a tick and \<open>stop\<close>. \<open>run\<close> makes the calls one after the
  other, stops at the first fault, and collects what the ticks took from the queue.
\<close>

datatype call = Register time Converter | Tick tick_env | Stop

fun run :: "call list \<Rightarrow> Driver \<Rightarrow> fault + (tick list \<times> Driver)" where
  "run [] s = Inr ([], s)"
| "run (Register now conv # cs) s = run cs (registerConverter now conv s)"
| "run (Stop # cs) s = run cs (stop s)"
| "run (Tick env # cs) s =
     (case rosIteration env s of
        Inl f \<Rightarrow> Inl f
      | Inr r \<Rightarrow>
          (case run cs (snd r) of
             Inl f \<Rightarrow> Inl f
           | Inr r' \<Rightarrow> Inr ((case fst r of None \<Rightarrow> [] | Some t \<Rightarrow> [t]) @ fst r', snd r')))"

text \<open>
  The queue is well formed when every entry holds the index of a registered converter
  and no two entries hold the same index.
\<close>

definition queue_ok :: "Driver \<Rightarrow> bool" where
  "queue_ok s \<longleftrightarrow>
     distinct (map conv_index (conv_queue s)) \<and>
     list_all (\<lambda>e. conv_index e < length (converters s)) (conv_queue s)"

text \<open>
  The fire times of the entries of converter \<open>i\<close> that the ticks took, in the order of
  the ticks.
\<close>

definition fire_times :: "nat \<Rightarrow> tick list \<Rightarrow> time list" where
  "fire_times i ts = map t_schedule (filter (\<lambda>t. t_index t = i) ts)"

text \<open>
  The queue a tick leaves when the queue is not empty: the top entry is popped and, when
  the frequency of its converter is not zero, an entry for the same converter is pushed,
  one period after the fire time of the popped entry.
\<close>

definition next_queue :: "Driver \<Rightarrow> ScheduledConverter list" where
  "next_queue s =
     (let e = top_from (hd (conv_queue s)) (tl (conv_queue s));
          f = conv_frequency (converters s ! conv_index e)
      in if f \<noteq> 0
         then push \<lparr>schedule = schedule e + period_ns f, conv_index = conv_index e\<rparr> (pop (conv_queue s))
         else pop (conv_queue s))"


section \<open>Sample states\<close>

text \<open>
  A driver with buffering enabled, two recorders (handles 0 and 1) and one event source
  (handle 0), and what a dump of it reads from outside, for the concrete instances of
  the properties below.
\<close>

definition sample_recorder :: Recorder where
  "sample_recorder =
     \<lparr>rec_isSubscribed = False, rec_isInitialized = False, rec_frequency = 0, rec_buffer_duration = 0\<rparr>"

definition sample_publisher :: "string \<Rightarrow> Publisher" where
  "sample_publisher topic = \<lparr>pub_topic = topic, pub_isSubscribed = False, pub_isInitialized = False\<rparr>"

definition sample_driver :: Driver where
  "sample_driver =
     insertEventConverter ''audio'' (event_heap (Driver_init 10) 0)
       (registerRecorder ''odom'' 1 10
         (snd (make_recorder sample_recorder
           (registerRecorder ''imu'' 0 10
             (snd (make_recorder sample_recorder
               (startLogging (Driver_init 10))))))))"

definition sample_env :: "(string \<Rightarrow> bool) \<Rightarrow> dump_env" where
  "sample_env raises = \<lparr>de_files_size = 0, de_folderMaximumSize = 100, de_now = 7, de_raises = raises\<rparr>"


definition sample_scheduler :: Driver where
  "sample_scheduler = registerConverter 0 \<lparr>conv_name = ''imu'', conv_frequency = 10\<rparr> (Driver_init 10)"




text \<open>
  A driver with publishing enabled and one converter at 10 Hz, registered with a
  publisher that is subscribed.
\<close>

definition publishing_driver :: Driver where
  "publishing_driver =
     (let p = make_publisher
                \<lparr>pub_topic = ''imu/torso'', pub_isSubscribed = True, pub_isInitialized = False\<rparr>
                (startPublishing (Driver_init 10))
      in registerPublisher ''imu'' (fst p)
           (registerConverter 0 \<lparr>conv_name = ''imu'', conv_frequency = 10\<rparr> (snd p)))"

text \<open>
  The driver as \<open>run()\<close> has it at its first tick, with the info converter alone: the
  constructor leaves publishing disabled, and the info converter, of frequency 0, is
  registered with a publisher that is always subscribed and a recorder.
\<close>

definition info_driver :: Driver where
  "info_driver =
     (let p = make_publisher
                \<lparr>pub_topic = ''info'', pub_isSubscribed = True, pub_isInitialized = False\<rparr>
                (Driver_init 10);
          r = make_recorder sample_recorder (snd p)
      in registerConverter3 0 \<lparr>conv_name = ''info'', conv_frequency = 0\<rparr> (fst p) (fst r) (snd r))"

section \<open>Properties\<close>

subsection \<open>Loops over the maps\<close>

lemma fold_heap_flag:
  "(\<And>e. P (f e)) \<Longrightarrow> h \<in> snd ` set m \<or> P (hp h) \<Longrightarrow>
   P (fold (\<lambda>kh hp. hp(snd kh := f (hp (snd kh)))) m hp h)"
  by (induction m arbitrary: hp) auto

lemma for_each_event_flag:
  "(\<And>e. P (f e)) \<Longrightarrow> kh \<in> set (event_map s) \<Longrightarrow> P (event_heap (for_each_event f s) (snd kh))"
  by (simp add: for_each_event_def fold_heap_flag)

lemma for_each_recorder_flag:
  "(\<And>e. P (f e)) \<Longrightarrow> kh \<in> set (rec_map s) \<Longrightarrow> P (rec_heap (for_each_recorder f s) (snd kh))"
  by (simp add: for_each_recorder_def fold_heap_flag)

lemma for_each_event_fields [simp]:
  "publish_enabled (for_each_event f s) = publish_enabled s"
  "record_enabled (for_each_event f s) = record_enabled s"
  "log_enabled (for_each_event f s) = log_enabled s"
  "keep_looping (for_each_event f s) = keep_looping s"
  "recorder (for_each_event f s) = recorder s"
  "buffer_duration (for_each_event f s) = buffer_duration s"
  "converters (for_each_event f s) = converters s"
  "conv_queue (for_each_event f s) = conv_queue s"
  "pub_map (for_each_event f s) = pub_map s"
  "pub_heap (for_each_event f s) = pub_heap s"
  "pub_next (for_each_event f s) = pub_next s"
  "rec_map (for_each_event f s) = rec_map s"
  "rec_heap (for_each_event f s) = rec_heap s"
  "rec_next (for_each_event f s) = rec_next s"
  "event_map (for_each_event f s) = event_map s"
  "event_next (for_each_event f s) = event_next s"
  "subscribers (for_each_event f s) = subscribers s"
  by (simp_all add: for_each_event_def)

lemma for_each_recorder_fields [simp]:
  "publish_enabled (for_each_recorder f s) = publish_enabled s"
  "record_enabled (for_each_recorder f s) = record_enabled s"
  "log_enabled (for_each_recorder f s) = log_enabled s"
  "keep_looping (for_each_recorder f s) = keep_looping s"
  "recorder (for_each_recorder f s) = recorder s"
  "buffer_duration (for_each_recorder f s) = buffer_duration s"
  "converters (for_each_recorder f s) = converters s"
  "conv_queue (for_each_recorder f s) = conv_queue s"
  "pub_map (for_each_recorder f s) = pub_map s"
  "pub_heap (for_each_recorder f s) = pub_heap s"
  "pub_next (for_each_recorder f s) = pub_next s"
  "rec_map (for_each_recorder f s) = rec_map s"
  "rec_next (for_each_recorder f s) = rec_next s"
  "event_map (for_each_recorder f s) = event_map s"
  "event_heap (for_each_recorder f s) = event_heap s"
  "event_next (for_each_recorder f s) = event_next s"
  "subscribers (for_each_recorder f s) = subscribers s"
  by (simp_all add: for_each_recorder_def)

subsection \<open>The period at sample frequencies\<close>

lemma period_ns_10: "period_ns 10 = 100000001"
  by code_simp

lemma period_ns_2: "period_ns 2 = 500000000"
  by code_simp


subsection \<open>The action set of a tick\<close>

lemma record_action_no_publish: "PUBLISH \<notin> set (record_action env s conv)"
  by (simp add: record_action_def Let_def)

lemma log_action_no_publish: "PUBLISH \<notin> set (log_action s conv)"
  by (simp add: log_action_def Let_def)

lemma publish_action_iff:
  "PUBLISH \<in> set (publish_action s conv) \<longleftrightarrow>
   publish_enabled s \<and>
   (\<exists>pub. map_of (pub_map s) (conv_name conv) = Some pub \<and> pub_isSubscribed (pub_heap s pub))"
  by (auto simp: publish_action_def Let_def)

text \<open>
  C2. A tick that dispatches a converter, the one of the entry at the top of the queue,
  selects \<open>PUBLISH\<close> if and only if publishing is enabled, the name of the converter is a
  key of the publisher map, and that publisher is subscribed. The equivalence covers the
  eight combinations of the three conditions.
\<close>

theorem publish_selected_iff:
  assumes "rosIteration env s = Inr (Some t, s')"
  shows "(PUBLISH \<in> set (t_actions t) \<longleftrightarrow>
          publish_enabled s \<and>
          (\<exists>pub. map_of (pub_map s) (conv_name (converters s ! t_index t)) = Some pub \<and>
                 pub_isSubscribed (pub_heap s pub))) \<and>
         t_index t = conv_index (top_from (hd (conv_queue s)) (tl (conv_queue s)))"
proof -
  from assms have
    "t_actions t = publish_action s (converters s ! t_index t)
       @ record_action env s (converters s ! t_index t)
       @ log_action s (converters s ! t_index t)"
    and "t_index t = conv_index (top_from (hd (conv_queue s)) (tl (conv_queue s)))"
    by (auto simp: rosIteration_def Let_def split: list.splits if_splits)
  then show ?thesis
    by (simp add: publish_action_iff record_action_no_publish log_action_no_publish)
qed

lemma publishing_driver_fields:
  "publish_enabled publishing_driver"
  "pub_map publishing_driver = [(''imu'', 0)]"
  "pub_isSubscribed (pub_heap publishing_driver 0)"
  "rec_map publishing_driver = []"
  "converters publishing_driver = [\<lparr>conv_name = ''imu'', conv_frequency = 10\<rparr>]"
  "conv_queue publishing_driver = [\<lparr>schedule = 0, conv_index = 0\<rparr>]"
  by (simp_all add: publishing_driver_def make_publisher_def startPublishing_def registerPublisher_def
      registerConverter_def Driver_init_def map_insert_def push_def Let_def)

theorem publish_selected_iff_witness:
  "rosIteration \<lparr>te_now = 0, te_lock_record = True\<rparr> publishing_driver
   = Inr (Some \<lparr>t_index = 0, t_schedule = 0, t_actions = [PUBLISH], t_sleep = 0\<rparr>,
          publishing_driver\<lparr>conv_queue := [\<lparr>schedule = 100000001, conv_index = 0\<rparr>]\<rparr>)
   \<and> PUBLISH \<in> set (t_actions \<lparr>t_index = 0, t_schedule = 0, t_actions = [PUBLISH], t_sleep = 0\<rparr>)
   \<and> publish_enabled publishing_driver
   \<and> map_of (pub_map publishing_driver) ''imu'' = Some 0
   \<and> pub_isSubscribed (pub_heap publishing_driver 0)"
proof -
  have tick: "rosIteration \<lparr>te_now = 0, te_lock_record = True\<rparr> publishing_driver
   = Inr (Some \<lparr>t_index = 0, t_schedule = 0, t_actions = [PUBLISH], t_sleep = 0\<rparr>,
          publishing_driver\<lparr>conv_queue := [\<lparr>schedule = 100000001, conv_index = 0\<rparr>]\<rparr>)"
    by (simp add: rosIteration_def publishing_driver_fields push_def pop_def publish_action_def
        record_action_def log_action_def Let_def period_ns_10)
  show ?thesis
    using tick publish_selected_iff [OF tick] by (simp add: publishing_driver_fields)
qed

subsection \<open>Dump while buffering is disabled\<close>

text \<open>
  C5. A dump, \<open>minidump\<close> or \<open>minidumpConverters\<close>, called while \<open>log_enabled_\<close> is false
  returns the error message "Log is not enabled, ..." and leaves the whole state of the
  driver as it was.
\<close>

theorem dump_disabled:
  "\<not> log_enabled s \<Longrightarrow>
   minidump env prefix s = (Inr err_log_not_enabled, s) \<and>
   minidumpConverters env prefix names s = (Inr err_log_not_enabled, s)"
  by (simp add: minidump_def minidumpConverters_def)

theorem dump_disabled_witness:
  "\<not> log_enabled (Driver_init 10) \<and>
   minidump \<lparr>de_files_size = 0, de_folderMaximumSize = 100, de_now = 5, de_raises = (\<lambda>n. False)\<rparr>
     ''dump'' (Driver_init 10) = (Inr err_log_not_enabled, Driver_init 10) \<and>
   minidumpConverters \<lparr>de_files_size = 0, de_folderMaximumSize = 100, de_now = 5, de_raises = (\<lambda>n. False)\<rparr>
     ''dump'' [''imu''] (Driver_init 10) = (Inr err_log_not_enabled, Driver_init 10)"
  using dump_disabled [of "Driver_init 10"
      "\<lparr>de_files_size = 0, de_folderMaximumSize = 100, de_now = 5, de_raises = (\<lambda>n. False)\<rparr>"
      "''dump''" "[''imu'']"]
  by (simp add: Driver_init_def)

subsection \<open>The sample driver\<close>

lemmas sample_defs = sample_driver_def sample_env_def sample_recorder_def sample_publisher_def
  insertEventConverter_def registerRecorder_def make_recorder_def startLogging_def Driver_init_def
  map_insert_def Let_def

lemma sample_maps:
  "rec_map sample_driver = [(''imu'', 0), (''odom'', 1)]"
  "event_map sample_driver = [(''audio'', 0)]"
  "log_enabled sample_driver" "\<not> record_enabled sample_driver"
  "recorder sample_driver = \<lparr>gr_open = None, gr_closed = []\<rparr>"
  by (simp_all add: sample_defs)

lemma sample_recorders:
  "rec_heap sample_driver 0 = sample_recorder\<lparr>rec_frequency := 10, rec_isInitialized := True\<rparr>"
  "rec_heap sample_driver 1 = sample_recorder\<lparr>rec_frequency := 10, rec_isInitialized := True\<rparr>"
  by (simp_all add: sample_defs)

subsection \<open>The buffer duration\<close>

text \<open>
  C10. After \<open>setBufferDuration(d)\<close>, \<open>getBufferDuration()\<close> returns \<open>d\<close>; the recorder
  map and the event map are the same, and every recorder of the one and every event of
  the other has its buffer duration set to \<open>d\<close>; \<open>getBufferDuration\<close> leaves the state as
  it was.
\<close>

theorem buffer_duration_roundtrip:
  "fst (getBufferDuration (setBufferDuration d s)) = d \<and>
   rec_map (setBufferDuration d s) = rec_map s \<and>
   event_map (setBufferDuration d s) = event_map s \<and>
   (\<forall>kr \<in> set (rec_map (setBufferDuration d s)).
      rec_buffer_duration (rec_heap (setBufferDuration d s) (snd kr)) = d) \<and>
   (\<forall>kh \<in> set (event_map (setBufferDuration d s)).
      ev_buffer_duration (event_heap (setBufferDuration d s) (snd kh)) = d) \<and>
   snd (getBufferDuration s) = s"
proof -
  let ?s1 = "for_each_recorder (\<lambda>r. r\<lparr>rec_buffer_duration := d\<rparr>) s"
  have ev: "ev_buffer_duration (event_heap (setBufferDuration d s) (snd kh)) = d"
    if kh: "kh \<in> set (event_map s)" for kh
  proof -
    have "kh \<in> set (event_map ?s1)" using kh by simp
    then have "ev_buffer_duration
        (event_heap (for_each_event (\<lambda>e. e\<lparr>ev_buffer_duration := d\<rparr>) ?s1) (snd kh)) = d"
      by (rule for_each_event_flag [where P = "\<lambda>e. ev_buffer_duration e = d", rotated]) simp
    then show ?thesis
      by (simp add: setBufferDuration_def Let_def)
  qed
  have rc: "rec_buffer_duration (rec_heap (setBufferDuration d s) (snd kr)) = d"
    if kr: "kr \<in> set (rec_map s)" for kr
  proof -
    from kr have "rec_buffer_duration (rec_heap ?s1 (snd kr)) = d"
      by (rule for_each_recorder_flag [where P = "\<lambda>r. rec_buffer_duration r = d", rotated]) simp
    then show ?thesis
      by (simp add: setBufferDuration_def Let_def)
  qed
  show ?thesis
    using ev rc by (simp add: getBufferDuration_def setBufferDuration_def Let_def)
qed

theorem buffer_duration_roundtrip_witness:
  "rec_map (setBufferDuration 3 sample_driver) = [(''imu'', 0), (''odom'', 1)] \<and>
   event_map (setBufferDuration 3 sample_driver) = [(''audio'', 0)] \<and>
   rec_buffer_duration (rec_heap (setBufferDuration 3 sample_driver) 0) = 3 \<and>
   rec_buffer_duration (rec_heap (setBufferDuration 3 sample_driver) 1) = 3 \<and>
   ev_buffer_duration (event_heap (setBufferDuration 3 sample_driver) 0) = 3 \<and>
   fst (getBufferDuration (setBufferDuration 3 sample_driver)) = 3"
proof -
  have m: "rec_map (setBufferDuration 3 sample_driver) = [(''imu'', 0), (''odom'', 1)]"
    "event_map (setBufferDuration 3 sample_driver) = [(''audio'', 0)]"
    by (simp_all add: setBufferDuration_def Let_def sample_maps)
  from buffer_duration_roundtrip [of 3 sample_driver]
  show ?thesis unfolding m by simp
qed

subsection \<open>Dump\<close>

lemma stopRecording_fields [simp]:
  "rec_map (snd (stopRecording s)) = rec_map s"
  "event_map (snd (stopRecording s)) = event_map s"
  "log_enabled (snd (stopRecording s)) = log_enabled s"
  "converters (snd (stopRecording s)) = converters s"
  "conv_queue (snd (stopRecording s)) = conv_queue s"
  "pub_map (snd (stopRecording s)) = pub_map s"
  by (simp_all add: stopRecording_def Let_def)

lemma map_of_keys: "map_of m k \<noteq> None \<longleftrightarrow> k \<in> set (map fst m)"
  by (induction m) auto

lemma writeDump_all_ok:
  "\<forall>k \<in> set (map fst m). \<not> raises k \<Longrightarrow>
   writeDump_all raises t m g = (None, fold (\<lambda>kv. append_dump (fst kv) t) m g)"
  by (induction m arbitrary: g) auto

lemma fold_append_dump:
  "gr_open g = Some (p, es) \<Longrightarrow>
   fold (\<lambda>k. append_dump k t) ks g = g\<lparr>gr_open := Some (p, es @ map (\<lambda>k. (k, t)) ks)\<rparr>"
  by (induction ks arbitrary: g es) (auto simp: append_dump_def)

lemma fold_append_dump_kv:
  "fold (\<lambda>kv. append_dump (fst kv) t) m g = fold (\<lambda>k. append_dump k t) (map fst m) g"
  by (induction m arbitrary: g) auto

lemma dump_names_ok:
  "\<forall>n \<in> set (matched rm em names). \<not> raises n \<Longrightarrow>
   dump_names raises t prefix rm em names is_started g =
     (None, is_started \<or> matched rm em names \<noteq> [],
      if matched rm em names = [] then g
      else fold (\<lambda>k. append_dump k t) (matched rm em names)
             (if is_started then g else startRecord prefix g))"
proof (induction names arbitrary: is_started g)
  case Nil
  then show ?case by (simp add: matched_def)
next
  case (Cons n names)
  show ?case
  proof (cases "n \<in> set (map fst rm) \<or> n \<in> set (map fst em)")
    case False
    then have "map_of rm n = None" "map_of em n = None"
      using map_of_keys [of rm n] map_of_keys [of em n] by auto
    moreover have "matched rm em (n # names) = matched rm em names"
      using False by (simp add: matched_def)
    ultimately show ?thesis using Cons by simp
  next
    case True
    then have m: "matched rm em (n # names) = n # matched rm em names"
      by (simp add: matched_def)
    with Cons.prems have nr: "\<not> raises n" and rest: "\<forall>n \<in> set (matched rm em names). \<not> raises n"
      by auto
    have r: "(case map_of rm n of
                 Some rec \<Rightarrow> dump_sink raises t prefix n is_started g
               | None \<Rightarrow>
                   (case map_of em n of
                      Some h \<Rightarrow> dump_sink raises t prefix n is_started g
                    | None \<Rightarrow> (None, is_started, g)))
             = dump_sink raises t prefix n is_started g"
      using True map_of_keys [of rm n] map_of_keys [of em n]
      by (auto split: option.splits)
    have ds: "dump_sink raises t prefix n is_started g
        = (None, True, append_dump n t (if is_started then g else startRecord prefix g))"
      using nr by (simp add: dump_sink_def Let_def)
    have op: "gr_open (append_dump n t (if is_started then g else startRecord prefix g)) \<noteq> None
        \<or> True" by simp
    show ?thesis
      using Cons.IH [OF rest, of True "append_dump n t (if is_started then g else startRecord prefix g)"]
      by (simp add: r ds m Let_def)
  qed
qed


lemma for_each_event_update [simp]:
  "for_each_event f (s\<lparr>log_enabled := b\<rparr>) = (for_each_event f s)\<lparr>log_enabled := b\<rparr>"
  "for_each_event f (s\<lparr>recorder := g\<rparr>) = (for_each_event f s)\<lparr>recorder := g\<rparr>"
  by (simp_all add: for_each_event_def)

lemma pre_dump_fields [simp]:
  "rec_map (pre_dump s) = rec_map s"
  "event_map (pre_dump s) = event_map s"
  by (simp_all add: pre_dump_def)

lemma minidump_ok:
  assumes en: "log_enabled s" and sz: "de_files_size env \<le> de_folderMaximumSize env"
    and nr: "\<forall>n \<in> set (map fst (event_map s)) \<union> set (map fst (rec_map s)). \<not> de_raises env n"
  shows "minidump env prefix s =
     (Inr prefix,
      (for_each_event (\<lambda>e. e\<lparr>ev_isDumping := False\<rparr>)
         (for_each_event (\<lambda>e. e\<lparr>ev_isDumping := True\<rparr>) (pre_dump s)))
       \<lparr>log_enabled := True,
        recorder := (recorder (pre_dump s))
          \<lparr>gr_open := None,
           gr_closed := gr_closed (recorder (pre_dump s)) @
             [(prefix, map (\<lambda>k. (k, de_now env)) (map fst (event_map s) @ map fst (rec_map s)))]\<rparr>\<rparr>)"
proof -
  let ?s1 = "pre_dump s"
  let ?s2 = "for_each_event (\<lambda>e. e\<lparr>ev_isDumping := True\<rparr>) (?s1\<lparr>log_enabled := False\<rparr>)"
  let ?t = "de_now env"
  let ?g1 = "startRecord prefix (recorder ?s2)"
  have ev: "\<forall>k \<in> set (map fst (event_map ?s2)). \<not> de_raises env k"
    using nr by simp
  have rc: "\<forall>k \<in> set (map fst (rec_map ?s2)). \<not> de_raises env k"
    using nr by simp
  have g1: "gr_open ?g1 = Some (prefix, [])" by (simp add: startRecord_def)
  have w1: "writeDump_all (de_raises env) ?t (event_map ?s2) ?g1
      = (None, ?g1\<lparr>gr_open := Some (prefix, map (\<lambda>k. (k, ?t)) (map fst (event_map s)))\<rparr>)"
    using writeDump_all_ok [OF ev, of ?t ?g1] fold_append_dump [OF g1, of ?t "map fst (event_map ?s2)"]
    by (simp add: fold_append_dump_kv)
  let ?g2 = "?g1\<lparr>gr_open := Some (prefix, map (\<lambda>k. (k, ?t)) (map fst (event_map s)))\<rparr>"
  have g2: "gr_open ?g2 = Some (prefix, map (\<lambda>k. (k, ?t)) (map fst (event_map s)))" by simp
  have w2: "writeDump_all (de_raises env) ?t (rec_map ?s2) ?g2
      = (None, ?g2\<lparr>gr_open := Some (prefix,
            map (\<lambda>k. (k, ?t)) (map fst (event_map s)) @ map (\<lambda>k. (k, ?t)) (map fst (rec_map s)))\<rparr>)"
    using writeDump_all_ok [OF rc, of ?t ?g2] fold_append_dump [OF g2, of ?t "map fst (rec_map ?s2)"]
    by (simp add: fold_append_dump_kv)
  have "minidump env prefix s =
      (let s3 = for_each_event (\<lambda>e. e\<lparr>ev_isDumping := False\<rparr>)
                  (?s2\<lparr>recorder := ?g2\<lparr>gr_open := Some (prefix,
                      map (\<lambda>k. (k, ?t)) (map fst (event_map s)) @ map (\<lambda>k. (k, ?t)) (map fst (rec_map s)))\<rparr>,
                    log_enabled := True\<rparr>);
           r = stopRecord (recorder s3)
       in (Inr (fst r), s3\<lparr>recorder := snd r\<rparr>))"
    unfolding minidump_def pre_dump_def [symmetric] Let_def
    using en sz by (simp only: w1 w2 fst_conv snd_conv option.case if_False not_less [symmetric] simp_thms)
  then show ?thesis
    by (simp add: Let_def stopRecord_def startRecord_def)
qed


lemma minidumpConverters_ok:
  assumes en: "log_enabled s" and sz: "de_files_size env \<le> de_folderMaximumSize env"
    and nr: "\<forall>n \<in> set (matched (rec_map s) (event_map s) names). \<not> de_raises env n"
  shows "minidumpConverters env prefix names s =
     (if matched (rec_map s) (event_map s) names = [] then
        (Inr err_no_topic,
         (for_each_event (\<lambda>e. e\<lparr>ev_isDumping := False\<rparr>)
            (for_each_event (\<lambda>e. e\<lparr>ev_isDumping := True\<rparr>) (pre_dump s)))
          \<lparr>log_enabled := True\<rparr>)
      else
        (Inr prefix,
         (for_each_event (\<lambda>e. e\<lparr>ev_isDumping := False\<rparr>)
            (for_each_event (\<lambda>e. e\<lparr>ev_isDumping := True\<rparr>) (pre_dump s)))
          \<lparr>log_enabled := True,
           recorder := (recorder (pre_dump s))
             \<lparr>gr_open := None,
              gr_closed := gr_closed (recorder (pre_dump s)) @
                [(prefix, map (\<lambda>k. (k, de_now env)) (matched (rec_map s) (event_map s) names))]\<rparr>\<rparr>))"
proof -
  let ?s1 = "pre_dump s"
  let ?s2 = "for_each_event (\<lambda>e. e\<lparr>ev_isDumping := True\<rparr>) (?s1\<lparr>log_enabled := False\<rparr>)"
  let ?t = "de_now env"
  let ?m = "matched (rec_map s) (event_map s) names"
  have m: "matched (rec_map ?s2) (event_map ?s2) names = ?m"
    by (simp add: matched_def)
  have g1: "gr_open (startRecord prefix (recorder ?s2)) = Some (prefix, [])"
    by (simp add: startRecord_def)
  have d: "dump_names (de_raises env) ?t prefix (rec_map ?s2) (event_map ?s2) names False (recorder ?s2)
      = (None, ?m \<noteq> [],
         if ?m = [] then recorder ?s2
         else (startRecord prefix (recorder ?s2))\<lparr>gr_open := Some (prefix, map (\<lambda>k. (k, ?t)) ?m)\<rparr>)"
    using dump_names_ok [of "rec_map ?s2" "event_map ?s2" names "de_raises env" ?t prefix False "recorder ?s2"]
      nr fold_append_dump [OF g1, of ?t ?m]
    unfolding m by simp
  have "minidumpConverters env prefix names s =
      (let s3 = for_each_event (\<lambda>e. e\<lparr>ev_isDumping := False\<rparr>)
                  (?s2\<lparr>recorder := (if ?m = [] then recorder ?s2
                         else (startRecord prefix (recorder ?s2))\<lparr>gr_open := Some (prefix, map (\<lambda>k. (k, ?t)) ?m)\<rparr>),
                    log_enabled := True\<rparr>)
       in if ?m \<noteq> [] then
            (let c = stopRecord (recorder s3) in (Inr (fst c), s3\<lparr>recorder := snd c\<rparr>))
          else (Inr err_no_topic, s3))"
    unfolding minidumpConverters_def pre_dump_def [symmetric] Let_def
    using en sz by (simp only: d fst_conv snd_conv option.case if_False not_less [symmetric] simp_thms)
  then show ?thesis
    by (simp add: Let_def stopRecord_def startRecord_def)
qed


lemma restored_after_loops:
  "buffering_restored s
     ((for_each_event (\<lambda>e. e\<lparr>ev_isDumping := False\<rparr>)
        (for_each_event (\<lambda>e. e\<lparr>ev_isDumping := True\<rparr>) (pre_dump s)))
      \<lparr>log_enabled := True, recorder := g\<rparr>)"
  "buffering_restored s
     ((for_each_event (\<lambda>e. e\<lparr>ev_isDumping := False\<rparr>)
        (for_each_event (\<lambda>e. e\<lparr>ev_isDumping := True\<rparr>) (pre_dump s)))
      \<lparr>log_enabled := True\<rparr>)"
proof -
  let ?s2 = "for_each_event (\<lambda>e. e\<lparr>ev_isDumping := True\<rparr>) (pre_dump s)"
  have *: "\<not> ev_isDumping (event_heap (for_each_event (\<lambda>e. e\<lparr>ev_isDumping := False\<rparr>) ?s2) (snd kh))"
    if "kh \<in> set (event_map s)" for kh
  proof -
    from that have "kh \<in> set (event_map ?s2)" by simp
    then show ?thesis
      by (rule for_each_event_flag [where P = "\<lambda>e. \<not> ev_isDumping e", rotated]) simp
  qed
  from * show "buffering_restored s
     ((for_each_event (\<lambda>e. e\<lparr>ev_isDumping := False\<rparr>) ?s2)\<lparr>log_enabled := True, recorder := g\<rparr>)"
    by (simp add: buffering_restored_def list_all_iff)
  from * show "buffering_restored s
     ((for_each_event (\<lambda>e. e\<lparr>ev_isDumping := False\<rparr>) ?s2)\<lparr>log_enabled := True\<rparr>)"
    by (simp add: buffering_restored_def list_all_iff)
qed

text \<open>
  C1, as the code has it. A dump that gets past the two checks and whose \<open>writeDump\<close>
  calls all return restores buffering before it returns: \<open>log_enabled_\<close> is true and
  \<open>is_dumping\<close> is false on every event source. (The source has no handler around the
  flush: when a \<open>writeDump\<close> throws, the exception leaves the function before the
  statements that restore buffering.)
\<close>

theorem dump_restores_buffering:
  assumes en: "log_enabled s" and sz: "de_files_size env \<le> de_folderMaximumSize env"
    and nr: "\<forall>n \<in> set (map fst (event_map s)) \<union> set (map fst (rec_map s)). \<not> de_raises env n"
  shows "(\<exists>id. fst (minidump env prefix s) = Inr id) \<and>
         buffering_restored s (snd (minidump env prefix s)) \<and>
         (\<exists>id. fst (minidumpConverters env prefix names s) = Inr id) \<and>
         buffering_restored s (snd (minidumpConverters env prefix names s))"
proof -
  have nr': "\<forall>n \<in> set (matched (rec_map s) (event_map s) names). \<not> de_raises env n"
    using nr by (auto simp: matched_def)
  show ?thesis
    unfolding minidump_ok [OF en sz nr] minidumpConverters_ok [OF en sz nr']
    by (simp add: restored_after_loops)
qed

theorem dump_restores_buffering_witness:
  "log_enabled sample_driver \<and>
   fst (minidump (sample_env (\<lambda>n. False)) ''dump'' sample_driver) = Inr ''dump'' \<and>
   buffering_restored sample_driver (snd (minidump (sample_env (\<lambda>n. False)) ''dump'' sample_driver)) \<and>
   buffering_restored sample_driver
     (snd (minidumpConverters (sample_env (\<lambda>n. False)) ''dump'' [''imu''] sample_driver))"
proof -
  have "fst (minidump (sample_env (\<lambda>n. False)) ''dump'' sample_driver) = Inr ''dump''"
    by (simp add: minidump_def sample_defs for_each_event_def Let_def startRecord_def
        append_dump_def stopRecord_def)
  then show ?thesis
    using dump_restores_buffering [of sample_driver "sample_env (\<lambda>n. False)" "''dump''" "[''imu'']"]
    by (simp add: sample_maps) (simp add: sample_env_def)
qed

theorem dump_restores_buffering_counterexample:
  "log_enabled sample_driver \<and>
   de_files_size (sample_env (\<lambda>n. n = ''odom'')) \<le> de_folderMaximumSize (sample_env (\<lambda>n. n = ''odom'')) \<and>
   fst (minidump (sample_env (\<lambda>n. n = ''odom'')) ''dump'' sample_driver) = Inl (WriteDumpFailed ''odom'') \<and>
   \<not> log_enabled (snd (minidump (sample_env (\<lambda>n. n = ''odom'')) ''dump'' sample_driver)) \<and>
   ev_isDumping (event_heap (snd (minidump (sample_env (\<lambda>n. n = ''odom'')) ''dump'' sample_driver)) 0) \<and>
   fst (minidumpConverters (sample_env (\<lambda>n. n = ''odom'')) ''dump'' [''imu'', ''odom''] sample_driver)
     = Inl (WriteDumpFailed ''odom'') \<and>
   \<not> log_enabled (snd (minidumpConverters (sample_env (\<lambda>n. n = ''odom'')) ''dump'' [''imu'', ''odom''] sample_driver))"
  by (simp add: minidump_def minidumpConverters_def sample_defs for_each_event_def Let_def
      startRecord_def append_dump_def dump_sink_def)

text \<open>
  C6, as the code has it. When no \<open>writeDump\<close> throws: \<open>minidumpConverters\<close> finalizes
  a container holding the buffers of the selected sinks and returns its identity if at
  least one selected name is a key of the recorder map or of the event map, and
  otherwise opens no container and returns the message "Could not find any topic ...";
  \<open>minidump\<close> always opens a container, writes the buffer of every event source and of
  every recorder to it, finalizes it and returns its identity, also when there is no
  sink at all.
\<close>

theorem dump_flush_result:
  assumes en: "log_enabled s" and sz: "de_files_size env \<le> de_folderMaximumSize env"
    and nr: "\<forall>n \<in> set (map fst (event_map s)) \<union> set (map fst (rec_map s)). \<not> de_raises env n"
  shows "fst (minidump env prefix s) = Inr prefix \<and>
         recorder (snd (minidump env prefix s)) =
           (recorder (pre_dump s))
             \<lparr>gr_open := None,
              gr_closed := gr_closed (recorder (pre_dump s)) @
                [(prefix, map (\<lambda>k. (k, de_now env)) (map fst (event_map s) @ map fst (rec_map s)))]\<rparr> \<and>
         (matched (rec_map s) (event_map s) names \<noteq> [] \<longrightarrow>
            fst (minidumpConverters env prefix names s) = Inr prefix \<and>
            recorder (snd (minidumpConverters env prefix names s)) =
              (recorder (pre_dump s))
                \<lparr>gr_open := None,
                 gr_closed := gr_closed (recorder (pre_dump s)) @
                   [(prefix, map (\<lambda>k. (k, de_now env)) (matched (rec_map s) (event_map s) names))]\<rparr>) \<and>
         (matched (rec_map s) (event_map s) names = [] \<longrightarrow>
            fst (minidumpConverters env prefix names s) = Inr err_no_topic \<and>
            recorder (snd (minidumpConverters env prefix names s)) = recorder (pre_dump s))"
proof -
  have nr': "\<forall>n \<in> set (matched (rec_map s) (event_map s) names). \<not> de_raises env n"
    using nr by (auto simp: matched_def)
  show ?thesis
    unfolding minidump_ok [OF en sz nr] minidumpConverters_ok [OF en sz nr']
    by simp
qed

theorem dump_flush_result_witness:
  "log_enabled sample_driver \<and>
   matched (rec_map sample_driver) (event_map sample_driver) [''imu'', ''laser'', ''audio''] = [''imu'', ''audio''] \<and>
   fst (minidumpConverters (sample_env (\<lambda>n. False)) ''dump'' [''imu'', ''laser'', ''audio''] sample_driver)
     = Inr ''dump'' \<and>
   gr_closed (recorder (snd (minidumpConverters (sample_env (\<lambda>n. False)) ''dump''
       [''imu'', ''laser'', ''audio''] sample_driver)))
     = [(''dump'', [(''imu'', 7), (''audio'', 7)])] \<and>
   matched (rec_map sample_driver) (event_map sample_driver) [''laser''] = [] \<and>
   fst (minidumpConverters (sample_env (\<lambda>n. False)) ''dump'' [''laser''] sample_driver)
     = Inr err_no_topic \<and>
   gr_closed (recorder (snd (minidumpConverters (sample_env (\<lambda>n. False)) ''dump'' [''laser''] sample_driver)))
     = [] \<and>
   gr_closed (recorder (snd (minidump (sample_env (\<lambda>n. False)) ''dump'' sample_driver)))
     = [(''dump'', [(''audio'', 7), (''imu'', 7), (''odom'', 7)])]"
proof -
  have m: "matched (rec_map sample_driver) (event_map sample_driver) [''imu'', ''laser'', ''audio'']
      = [''imu'', ''audio'']"
    "matched (rec_map sample_driver) (event_map sample_driver) [''laser''] = []"
    by (simp_all add: matched_def sample_maps)
  have p: "recorder (pre_dump sample_driver) = \<lparr>gr_open = None, gr_closed = []\<rparr>"
    by (simp add: pre_dump_def sample_maps)
  have en: "log_enabled sample_driver" by (rule sample_maps)
  have sz: "de_files_size (sample_env (\<lambda>n. False)) \<le> de_folderMaximumSize (sample_env (\<lambda>n. False))"
    by (simp add: sample_env_def)
  have nr: "\<forall>n \<in> set (map fst (event_map sample_driver)) \<union> set (map fst (rec_map sample_driver)).
      \<not> de_raises (sample_env (\<lambda>n. False)) n"
    by (simp add: sample_env_def)
  have k: "map fst (event_map sample_driver) @ map fst (rec_map sample_driver) = [''audio'', ''imu'', ''odom'']"
    by (simp add: sample_maps)
  from en m p k
    dump_flush_result [OF en sz nr, of "''dump''" "[''imu'', ''laser'', ''audio'']"]
    dump_flush_result [OF en sz nr, of "''dump''" "[''laser'']"]
  show ?thesis
    by (simp add: sample_env_def)
qed

theorem dump_flush_result_counterexample:
  "log_enabled (startLogging (Driver_init 10)) \<and>
   rec_map (startLogging (Driver_init 10)) = [] \<and> event_map (startLogging (Driver_init 10)) = [] \<and>
   fst (minidump (sample_env (\<lambda>n. False)) ''dump'' (startLogging (Driver_init 10))) = Inr ''dump'' \<and>
   fst (minidump (sample_env (\<lambda>n. False)) ''dump'' (startLogging (Driver_init 10))) \<noteq> Inr err_no_topic \<and>
   gr_closed (recorder (snd (minidump (sample_env (\<lambda>n. False)) ''dump'' (startLogging (Driver_init 10)))))
     = [(''dump'', [])]"
  by (simp add: minidump_def sample_defs for_each_event_def Let_def startRecord_def
      stopRecord_def err_no_topic_def)

subsection \<open>Stop\<close>

text \<open>
  C8, as the code has it. \<open>stop()\<close> sets \<open>keep_looping\<close> to false, asks every event source
  of the event map to stop its processing, and clears the converter registry, the list
  of subscribers and the event map. The publisher map and the recorder map are left as
  they were, and so are the publishers and the recorders.
\<close>

theorem stop_clears:
  "keep_looping (stop s) = False \<and>
   (\<forall>kh \<in> set (event_map s). \<not> ev_isStarted (event_heap (stop s) (snd kh))) \<and>
   converters (stop s) = [] \<and> subscribers (stop s) = [] \<and> event_map (stop s) = [] \<and>
   pub_map (stop s) = pub_map s \<and> rec_map (stop s) = rec_map s \<and>
   pub_heap (stop s) = pub_heap s \<and> rec_heap (stop s) = rec_heap s"
proof -
  have "\<not> ev_isStarted (event_heap (stop s) (snd kh))" if "kh \<in> set (event_map s)" for kh
  proof -
    have "kh \<in> set (event_map (s\<lparr>keep_looping := False\<rparr>))" using that by simp
    then have "\<not> ev_isStarted (event_heap
        (for_each_event (\<lambda>e. e\<lparr>ev_isStarted := False\<rparr>) (s\<lparr>keep_looping := False\<rparr>)) (snd kh))"
      by (rule for_each_event_flag [where P = "\<lambda>e. \<not> ev_isStarted e", rotated]) simp
    then show ?thesis by (simp add: stop_def Let_def)
  qed
  then show ?thesis by (simp add: stop_def Let_def)
qed

lemma info_driver_fields:
  "publish_enabled info_driver = False" "record_enabled info_driver = False"
  "log_enabled info_driver = False"
  "pub_map info_driver = [(''info'', 0)]" "rec_map info_driver = [(''info'', 0)]"
  "pub_isSubscribed (pub_heap info_driver 0)"
  "converters info_driver = [\<lparr>conv_name = ''info'', conv_frequency = 0\<rparr>]"
  "conv_queue info_driver = [\<lparr>schedule = 0, conv_index = 0\<rparr>]"
  "event_map info_driver = []"
  by (simp_all add: info_driver_def make_publisher_def make_recorder_def registerConverter3_def
      registerConverter_def registerPublisher_def registerRecorder_def Driver_init_def
      map_insert_def push_def Let_def)

theorem stop_clears_counterexample:
  "pub_map (stop info_driver) = [(''info'', 0)] \<and> rec_map (stop info_driver) = [(''info'', 0)]"
  by (simp add: stop_def info_driver_fields Let_def)

theorem stop_clears_witness:
  "event_map (insertEventConverter ''audio'' ((event_heap (Driver_init 10) 0)\<lparr>ev_isStarted := True\<rparr>)
     (Driver_init 10)) = [(''audio'', 0)] \<and>
   ev_isStarted (event_heap (insertEventConverter ''audio'' ((event_heap (Driver_init 10) 0)\<lparr>ev_isStarted := True\<rparr>)
     (Driver_init 10)) 0) \<and>
   \<not> ev_isStarted (event_heap (stop (insertEventConverter ''audio''
      ((event_heap (Driver_init 10) 0)\<lparr>ev_isStarted := True\<rparr>) (Driver_init 10))) 0) \<and>
   event_map (stop (insertEventConverter ''audio''
      ((event_heap (Driver_init 10) 0)\<lparr>ev_isStarted := True\<rparr>) (Driver_init 10))) = []"
  using stop_clears [of "insertEventConverter ''audio''
      ((event_heap (Driver_init 10) 0)\<lparr>ev_isStarted := True\<rparr>) (Driver_init 10)"]
  by (simp add: insertEventConverter_def Driver_init_def map_insert_def)

subsection \<open>Registration under a name that is present\<close>

text \<open>
  C7, as the code has it. Registering a publisher or a recorder under a name that is a
  key of the map already leaves the map as it was: the name keeps the sink it had, and
  nothing tells the caller. The sink that was passed is reset all the same (a recorder
  always, a publisher when publishing is enabled), and nothing else of the driver
  changes; the sink the name maps to is touched only if it is the one passed.
  \<open>registerMemoryConverter\<close> returns true whenever the key can be read and the data type
  is one of the four, whether the key is registered or not.
\<close>

theorem register_duplicate:
  "(map_of (pub_map s) name = Some h \<longrightarrow>
      registerPublisher name pub s =
        (if publish_enabled s
         then s\<lparr>pub_heap := (pub_heap s)(pub := (pub_heap s pub)\<lparr>pub_isInitialized := True\<rparr>)\<rparr>
         else s)) \<and>
   (map_of (rec_map s) name = Some h' \<longrightarrow>
      registerRecorder name rec frequency s =
        s\<lparr>rec_heap := (rec_heap s)
             (rec := (rec_heap s rec)\<lparr>rec_frequency := frequency, rec_isInitialized := True\<rparr>)\<rparr>) \<and>
   (getData key = Some v \<and> 1 \<le> type \<and> type \<le> 4 \<longrightarrow>
      fst (registerMemoryConverter getData getDataType now key frequency type s) = True)"
  by (auto simp: registerPublisher_def registerRecorder_def registerMemoryConverter_def
      map_insert_def Let_def)

theorem register_duplicate_witness:
  "map_of (rec_map sample_driver) ''imu'' = Some 0 \<and>
   rec_map (registerRecorder ''imu'' 1 5 sample_driver) = [(''imu'', 0), (''odom'', 1)] \<and>
   rec_frequency (rec_heap (registerRecorder ''imu'' 1 5 sample_driver) 0) = 10 \<and>
   rec_frequency (rec_heap (registerRecorder ''imu'' 1 5 sample_driver) 1) = 5 \<and>
   rec_map (registerRecorder ''imu'' 0 5 sample_driver) = [(''imu'', 0), (''odom'', 1)] \<and>
   rec_frequency (rec_heap (registerRecorder ''imu'' 0 5 sample_driver) 0) = 5 \<and>
   map_of (pub_map publishing_driver) ''imu'' = Some 0 \<and>
   pub_map (registerPublisher ''imu'' 7 publishing_driver) = [(''imu'', 0)] \<and>
   pub_isInitialized (pub_heap (registerPublisher ''imu'' 7 publishing_driver) 7) \<and>
   fst (registerMemoryConverter (\<lambda>k. Some ()) (\<lambda>v. Some 1) 5 ''imu'' 5 4 sample_driver) = True"
proof -
  have a: "map_of (rec_map sample_driver) ''imu'' = Some 0"
    by (simp add: sample_maps)
  have b: "map_of (pub_map publishing_driver) ''imu'' = Some 0"
    by (simp add: publishing_driver_fields)
  show ?thesis
    using a b
      register_duplicate [where s = sample_driver and name = "''imu''" and h = 0 and h' = 0
        and pub = 7 and rec = 1 and frequency = 5
        and getData = "\<lambda>k. Some ()" and key = "''imu''" and v = "()" and type = 4
        and getDataType = "\<lambda>v. Some 1" and now = 5]
      register_duplicate [where s = sample_driver and name = "''imu''" and h = 0 and h' = 0
        and pub = 7 and rec = 0 and frequency = 5
        and getData = "\<lambda>k. Some ()" and key = "''imu''" and v = "()" and type = 4
        and getDataType = "\<lambda>v. Some 1" and now = 5]
      register_duplicate [where s = publishing_driver and name = "''imu''" and h = 0 and h' = 0
        and pub = 7 and rec = 0 and frequency = 5
        and getData = "\<lambda>k. Some ()" and key = "''imu''" and v = "()" and type = 4
        and getDataType = "\<lambda>v. Some 1" and now = 5]
    by (simp add: sample_maps sample_recorders publishing_driver_fields sample_recorder_def)
qed

theorem register_duplicate_counterexample:
  "fst (registerMemoryConverter (\<lambda>k. Some ()) (\<lambda>v. Some 1) 0 ''Device/Battery'' 10 1 (Driver_init 10)) = True \<and>
   fst (registerMemoryConverter (\<lambda>k. Some ()) (\<lambda>v. Some 1) 5 ''Device/Battery'' 10 1
     (snd (registerMemoryConverter (\<lambda>k. Some ()) (\<lambda>v. Some 1) 0 ''Device/Battery'' 10 1 (Driver_init 10))))
   = True \<and>
   map conv_name (converters (registerConverter3 5 \<lparr>conv_name = ''info'', conv_frequency = 0\<rparr> 1 1
     (snd (make_recorder sample_recorder (snd (make_publisher (sample_publisher ''info2'') info_driver))))))
   = [''info'', ''info''] \<and>
   pub_map (registerConverter3 5 \<lparr>conv_name = ''info'', conv_frequency = 0\<rparr> 1 1
     (snd (make_recorder sample_recorder (snd (make_publisher (sample_publisher ''info2'') info_driver)))))
   = [(''info'', 0)] \<and>
   rec_map (registerConverter3 5 \<lparr>conv_name = ''info'', conv_frequency = 0\<rparr> 1 1
     (snd (make_recorder sample_recorder (snd (make_publisher (sample_publisher ''info2'') info_driver)))))
   = [(''info'', 0)]"
  by (simp add: registerMemoryConverter_def registerMemoryConverter_tmpl_def registerConverter3_def
      registerConverter_def registerPublisher_def registerRecorder_def Driver_init_def map_insert_def
      make_publisher_def make_recorder_def push_def Let_def info_driver_fields)

subsection \<open>The queue and the schedule\<close>

lemma top_from_mem: "top_from x xs \<in> set (x # xs)"
  by (induction xs arbitrary: x) auto

lemma distinct_map_remove1:
  "distinct (map f xs) \<Longrightarrow> distinct (map f (remove1 x xs))"
  by (induction xs) (auto simp: image_iff dest: notin_set_remove1)

lemma pop_Cons: "pop (x # xs) = remove1 (top_from x xs) (x # xs)"
  by (simp add: pop_def)

lemma pop_distinct: "distinct (map conv_index q) \<Longrightarrow> distinct (map conv_index (pop q))"
  by (cases q) (simp_all only: pop_Cons distinct_map_remove1, simp add: pop_def)

lemma pop_set:
  assumes "distinct (map conv_index (x # xs))"
  shows "set (pop (x # xs)) = set (x # xs) - {top_from x xs}"
proof -
  from assms have "distinct (x # xs)" by (simp only: distinct_map)
  then show ?thesis unfolding pop_Cons by (rule set_remove1_eq)
qed

lemma pop_indices:
  assumes d: "distinct (map conv_index (x # xs))"
  shows "conv_index ` set (pop (x # xs)) = conv_index ` set (x # xs) - {conv_index (top_from x xs)}"
proof -
  have inj: "inj_on conv_index (set (x # xs))"
    using d by (simp only: distinct_map)
  have "conv_index ` (set (x # xs) - {top_from x xs})
      = conv_index ` set (x # xs) - conv_index ` {top_from x xs}"
    using inj top_from_mem [of x xs] by (intro inj_on_image_set_diff [OF inj]) auto
  then show ?thesis using pop_set [OF d] by simp
qed

lemma tick_empty: "conv_queue s = [] \<Longrightarrow> rosIteration env s = Inr (None, s)"
  by (simp add: rosIteration_def)

lemma tick_top:
  assumes ok: "queue_ok s" and q: "conv_queue s = x # xs"
  shows "\<exists>t. rosIteration env s = Inr (Some t, s\<lparr>conv_queue := next_queue s\<rparr>) \<and>
             t_index t = conv_index (top_from x xs) \<and> t_schedule t = schedule (top_from x xs)"
proof -
  have "conv_index (top_from x xs) < length (converters s)"
    using ok q top_from_mem [of x xs] by (auto simp: queue_ok_def list_all_iff)
  then show ?thesis
    using q by (simp add: rosIteration_def next_queue_def Let_def)
qed

lemma next_queue_ok:
  assumes ok: "queue_ok s" and q: "conv_queue s = x # xs"
  shows "queue_ok (s\<lparr>conv_queue := next_queue s\<rparr>)"
proof -
  let ?e = "top_from x xs"
  have d: "distinct (map conv_index (x # xs))" using ok q by (simp add: queue_ok_def)
  have d': "distinct (map conv_index (pop (x # xs)))" using d by (rule pop_distinct)
  have i: "conv_index ?e \<notin> conv_index ` set (pop (x # xs))"
    using pop_indices [OF d] by simp
  have b: "\<forall>e \<in> set (x # xs). conv_index e < length (converters s)"
    using ok q by (simp add: queue_ok_def list_all_iff)
  have b': "\<forall>e \<in> set (pop (x # xs)). conv_index e < length (converters s)"
    using b pop_set [OF d] by auto
  have be: "conv_index ?e < length (converters s)"
    using b top_from_mem [of x xs] by blast
  show ?thesis
    using d' i b' be q
    by (auto simp: queue_ok_def next_queue_def push_def list_all_iff Let_def)
qed

lemma registerConverter_ok: "queue_ok s \<Longrightarrow> queue_ok (registerConverter now conv s)"
  by (auto simp: queue_ok_def registerConverter_def push_def list_all_iff)


lemma next_queue_eq:
  assumes q: "conv_queue s = x # xs"
  shows "next_queue s =
     (if conv_frequency (converters s ! conv_index (top_from x xs)) \<noteq> 0
      then pop (conv_queue s) @
           [\<lparr>schedule = schedule (top_from x xs)
               + period_ns (conv_frequency (converters s ! conv_index (top_from x xs))),
             conv_index = conv_index (top_from x xs)\<rparr>]
      else pop (conv_queue s))"
  using q by (simp add: next_queue_def push_def Let_def)

lemma next_queue_indices:
  assumes ok: "queue_ok s" and q: "conv_queue s = x # xs"
  shows "conv_index ` set (next_queue s) =
     (if conv_frequency (converters s ! conv_index (top_from x xs)) \<noteq> 0
      then conv_index ` set (conv_queue s)
      else conv_index ` set (conv_queue s) - {conv_index (top_from x xs)})"
proof -
  let ?j = "conv_index (top_from x xs)"
  have d: "distinct (map conv_index (x # xs))" using ok q by (simp add: queue_ok_def)
  have p: "conv_index ` set (pop (conv_queue s)) = conv_index ` set (conv_queue s) - {?j}"
    using pop_indices [OF d] by (simp only: q)
  have j: "?j \<in> conv_index ` set (conv_queue s)"
    unfolding q using top_from_mem [of x xs] by (rule imageI)
  show ?thesis
  proof (cases "conv_frequency (converters s ! ?j) \<noteq> 0")
    case True
    then have "conv_index ` set (next_queue s)
        = insert ?j (conv_index ` set (pop (conv_queue s)))"
      by (simp add: next_queue_eq [OF q])
    also have "\<dots> = insert ?j (conv_index ` set (conv_queue s) - {?j})"
      by (simp only: p)
    also have "\<dots> = conv_index ` set (conv_queue s)"
      using j by blast
    finally show ?thesis using True by simp
  next
    case False
    then show ?thesis by (simp add: next_queue_eq [OF q] p)
  qed
qed




lemma run_Tick_top:
  assumes t: "rosIteration env s = Inr (Some t, s1)"
    and r: "run (Tick env # cs) s = Inr (ts, s')"
  shows "\<exists>ts1. run cs s1 = Inr (ts1, s') \<and> ts = t # ts1"
  using t r by (auto split: sum.splits)

lemma run_Tick_empty:
  assumes t: "rosIteration env s = Inr (None, s1)"
    and r: "run (Tick env # cs) s = Inr (ts, s')"
  shows "run cs s1 = Inr (ts, s')"
  using t r by (auto split: sum.splits)

lemma one_shot_count:
  assumes "queue_ok s" and "Stop \<notin> set cs" and "i < length (converters s)"
    and "conv_frequency (converters s ! i) = 0"
    and "run cs s = Inr (ts, s')"
  shows "length (fire_times i ts) + (if i \<in> conv_index ` set (conv_queue s') then 1 else 0)
       = (if i \<in> conv_index ` set (conv_queue s) then 1 else 0)"
  using assms
proof (induction cs arbitrary: s ts)
  case Nil
  then show ?case by (simp add: fire_times_def)
next
  case (Cons c cs)
  show ?case
  proof (cases c)
    case Stop
    with Cons.prems show ?thesis by simp
  next
    case (Register now conv)
    let ?s1 = "registerConverter now conv s"
    have ok1: "queue_ok ?s1" using Cons.prems(1) by (rule registerConverter_ok)
    have i1: "i < length (converters ?s1)" using Cons.prems(3) by (simp add: registerConverter_def)
    have f1: "conv_frequency (converters ?s1 ! i) = 0"
      using Cons.prems(3,4) by (simp add: registerConverter_def nth_append)
    have r1: "run cs ?s1 = Inr (ts, s')" using Cons.prems(5) Register by simp
    have "i \<in> conv_index ` set (conv_queue ?s1) \<longleftrightarrow> i \<in> conv_index ` set (conv_queue s)"
      using Cons.prems(3) by (auto simp: registerConverter_def push_def)
    with Cons.IH [OF ok1 _ i1 f1 r1] Cons.prems(2) show ?thesis by simp
  next
    case (Tick env)
    show ?thesis
    proof (cases "conv_queue s")
      case Nil
      from Cons.prems(5) have "run (Tick env # cs) s = Inr (ts, s')"
        unfolding Tick .
      with tick_empty [OF Nil, of env]
      have "run cs s = Inr (ts, s')" by (rule run_Tick_empty)
      with Cons.IH [OF Cons.prems(1) _ Cons.prems(3,4)] Cons.prems(2) show ?thesis by simp
    next
      case q: (Cons x xs)
      let ?s1 = "s\<lparr>conv_queue := next_queue s\<rparr>"
      let ?j = "conv_index (top_from x xs)"
      from tick_top [OF Cons.prems(1) q, of env] obtain t where
        t: "rosIteration env s = Inr (Some t, ?s1)" and ti: "t_index t = ?j"
        by blast
      from Cons.prems(5) have "run (Tick env # cs) s = Inr (ts, s')"
        unfolding Tick .
      from run_Tick_top [OF t this] obtain ts1 where
        r1: "run cs ?s1 = Inr (ts1, s')" and ts: "ts = t # ts1" by blast
      have ok1: "queue_ok ?s1" using Cons.prems(1) q by (rule next_queue_ok)
      have i1: "i < length (converters ?s1)" using Cons.prems(3) by simp
      have f1: "conv_frequency (converters ?s1 ! i) = 0" using Cons.prems(4) by simp
      note IH = Cons.IH [OF ok1 _ i1 f1 r1]
      have jq: "?j \<in> conv_index ` set (conv_queue s)"
        using q top_from_mem [of x xs] by (auto intro: imageI)
      show ?thesis
      proof (cases "i = ?j")
        case True
        then have "i \<notin> conv_index ` set (conv_queue ?s1)"
          using next_queue_indices [OF Cons.prems(1) q] Cons.prems(4) by simp
        with IH Cons.prems(2) True jq ts ti show ?thesis
          by (simp add: fire_times_def)
      next
        case False
        then have "i \<in> conv_index ` set (conv_queue ?s1) \<longleftrightarrow> i \<in> conv_index ` set (conv_queue s)"
          using next_queue_indices [OF Cons.prems(1) q] by auto
        with IH Cons.prems(2) False ts ti show ?thesis
          by (simp add: fire_times_def)
      qed
    qed
  qed
qed







subsection \<open>The period within the range of the nanoseconds argument\<close>







subsection \<open>The fire times of a periodic converter\<close>


lemma sample_scheduler_fields:
  "converters sample_scheduler = [\<lparr>conv_name = ''imu'', conv_frequency = 10\<rparr>]"
  "conv_queue sample_scheduler = [\<lparr>schedule = 0, conv_index = 0\<rparr>]"
  "pub_map sample_scheduler = []" "rec_map sample_scheduler = []"
  by (simp_all add: sample_scheduler_def registerConverter_def Driver_init_def push_def)







subsection \<open>The one-shot converter\<close>

text \<open>
  C4. A converter of frequency 0 whose action set is empty at the tick that takes its
  entry is never dispatched: the tick pops the entry without calling \<open>callAll\<close> and
  pushes nothing. This is the first tick of \<open>run()\<close> for the info converter: publishing is
  still disabled, so \<open>PUBLISH\<close> is not selected although the publisher is subscribed, and
  once publishing is enabled the queue has no entry for the converter any more. After
  \<open>stop()\<close> the entry that is left in the queue is taken for the converter registered next
  under the same index, so a converter of frequency 0 is taken twice. Without \<open>stop()\<close> the
  entry of such a converter is taken at most once (\<open>one_shot_count\<close> above).
\<close>

theorem one_shot_not_dispatched:
  "publish_enabled info_driver = False \<and>
   map_of (pub_map info_driver) ''info'' = Some 0 \<and>
   pub_isSubscribed (pub_heap info_driver 0) \<and>
   rosIteration \<lparr>te_now = 0, te_lock_record = True\<rparr> info_driver
     = Inr (Some \<lparr>t_index = 0, t_schedule = 0, t_actions = [], t_sleep = 0\<rparr>,
            info_driver\<lparr>conv_queue := []\<rparr>) \<and>
   rosIteration \<lparr>te_now = 1, te_lock_record = True\<rparr> (startPublishing (info_driver\<lparr>conv_queue := []\<rparr>))
     = Inr (None, startPublishing (info_driver\<lparr>conv_queue := []\<rparr>)) \<and>
   (case run [Stop, Register 5 \<lparr>conv_name = ''info'', conv_frequency = 0\<rparr>,
              Tick \<lparr>te_now = 50, te_lock_record = True\<rparr>,
              Tick \<lparr>te_now = 60, te_lock_record = True\<rparr>] sample_scheduler of
      Inl e \<Rightarrow> [] | Inr r \<Rightarrow> map (\<lambda>t. (t_index t, t_schedule t, t_actions t)) (fst r))
     = [(0, 0, []), (0, 5, [])]"
  by (simp add: info_driver_fields sample_scheduler_fields rosIteration_def startPublishing_def
      registerConverter_def stop_def for_each_event_def
      push_def pop_def publish_action_def record_action_def log_action_def Let_def)

subsection \<open>The queue after stop\<close>

text \<open>
  C9. The index of every entry of the queue is below the size of the converter registry
  in every state reached by registrations and ticks (\<open>run_total\<close> above), but not after
  \<open>stop()\<close>: it clears the registry and leaves the queue, so the entry of a registered
  converter stays with an index that is out of range, and the next tick reads
  \<open>converters_[0]\<close> of an empty vector.
\<close>

theorem stale_queue_after_stop:
  "conv_queue (stop sample_scheduler) = [\<lparr>schedule = 0, conv_index = 0\<rparr>] \<and>
   converters (stop sample_scheduler) = [] \<and>
   \<not> queue_ok (stop sample_scheduler) \<and>
   run [Register 0 \<lparr>conv_name = ''imu'', conv_frequency = 10\<rparr>, Stop,
        Tick \<lparr>te_now = 50, te_lock_record = True\<rparr>] (Driver_init 10)
     = Inl (OutOfRange 0)"
  by (simp add: sample_scheduler_def stop_def rosIteration_def registerConverter_def
      Driver_init_def push_def queue_ok_def for_each_event_def Let_def)

end
